theory Spec2Isabelle
  imports Main "HOL-Library.AList"
begin

section \<open>Data model of \<open>converters.ts\<close>\<close>

text \<open>
  A worklist item \<open>{mimeType, cost, data}\<close>, and the argument of a converter, which
  carries the \<open>url\<close> as a fourth field. The candidates a converter returns have the
  same three fields, with a plain \<open>Observable\<close> as \<open>data\<close>.
  \<open>MimeType_\<close>, \<open>Cost\<close> and \<open>URL_\<close> are declared in \<open>datasets.ts\<close>; they are
  type parameters here, \<open>Cost\<close> a linear order where the comparison needs one
  (a cost is never \<open>NaN\<close>).
  \<open>'h\<close> is \<open>CachedObservable<T>\<close>, \<open>'d\<close> is \<open>Observable<T>\<close>.
\<close>

record ('m, 'c, 'd) entry =
  mimeType :: 'm
  cost :: 'c
  data :: 'd

record ('m, 'c, 'd, 'u) converter_arg = "('m, 'c, 'd) entry" +
  url :: 'u

text \<open>
  A \<open>Dataset<T>\<close> is a JavaScript \<open>Map\<close> from mimetype to \<open>[cost, data]\<close>. A
  \<open>Map\<close> iterates in insertion order and \<open>set\<close> on a key it already holds keeps
  the key's position, so its content is an association list. Maps are objects: the
  function receives and returns references into a heap of maps, and a reference is
  valid when it is below the length of the heap.
\<close>

type_synonym ('m, 'c, 'h) dataset = "('m \<times> 'c \<times> 'h) list"

type_synonym ref = nat

type_synonym ('m, 'c, 'h) heap = "('m, 'c, 'h) dataset list"

definition Map_has :: "('m, 'c, 'h) dataset \<Rightarrow> 'm \<Rightarrow> bool" where
  "Map_has ds k = (map_of ds k \<noteq> None)"

definition Map_get :: "('m, 'c, 'h) dataset \<Rightarrow> 'm \<Rightarrow> ('c \<times> 'h) option" where
  "Map_get ds k = map_of ds k"

definition Map_set :: "('m, 'c, 'h) dataset \<Rightarrow> 'm \<Rightarrow> 'c \<times> 'h \<Rightarrow> ('m, 'c, 'h) dataset" where
  "Map_set ds k v = AList.update k v ds"

text \<open>\<open>new Map()\<close>: a reference no object of the heap has, to an empty map.\<close>

definition new_Map :: "('m, 'c, 'h) heap \<Rightarrow> ref \<times> ('m, 'c, 'h) heap" where
  "new_Map heap = (length heap, heap @ [[]])"

text \<open>
  A call either returns a value or throws; both leave a heap behind.
\<close>

datatype ('e, 'a, 's) outcome = Throws 'e 's | Returns 'a 's

text \<open>
  A converter returns its candidates (\<open>Inr\<close>) or throws (\<open>Inl\<close>); it is a function
  of its argument only and does not touch the heap of maps.
\<close>

type_synonym ('m, 'c, 'h, 'd, 'u, 'e) converter =
  "('m, 'c, 'h, 'u) converter_arg \<Rightarrow> 'e + ('m, 'c, 'd) entry list"

section \<open>\<open>combineManyConverters\<close>\<close>

text \<open>
  \<open>converters.map(c => c(dataset))\<close>: the converters are called in order, and the
  first one that throws ends the call.
\<close>

fun map_converters ::
  "('m, 'c, 'h, 'd, 'u, 'e) converter list \<Rightarrow> ('m, 'c, 'h, 'u) converter_arg
    \<Rightarrow> 'e + ('m, 'c, 'd) entry list list" where
  "map_converters [] dataset = Inr []"
| "map_converters (c # cs) dataset =
     (case c dataset of
        Inl err \<Rightarrow> Inl err
      | Inr r \<Rightarrow> (case map_converters cs dataset of
                   Inl err \<Rightarrow> Inl err
                 | Inr rs \<Rightarrow> Inr (r # rs)))"

definition combineManyConverters ::
  "('m, 'c, 'h, 'd, 'u, 'e) converter list \<Rightarrow> ('m, 'c, 'h, 'd, 'u, 'e) converter" where
  "combineManyConverters converters =
     (\<lambda>dataset. case map_converters converters dataset of
                  Inl err \<Rightarrow> Inl err
                | Inr rs \<Rightarrow> Inr (foldl (\<lambda>l r. l @ r) [] rs))"

section \<open>\<open>applyConverterDataset\<close>\<close>

text \<open>
  \<open>CachedObservable.from\<close> is defined in \<open>cachedObservable.ts\<close>; it is the parameter
  \<open>cached\<close> of the model.

  The test of the \<open>if\<close> in the loop: the mimetype is in \<open>processed\<close> at a lower or
  equal cost.
\<close>

definition already_cheaper :: "('m, 'c::ord, 'h) dataset \<Rightarrow> ('m, 'c, 'h) entry \<Rightarrow> bool" where
  "already_cheaper ds popped =
     (Map_has ds (mimeType popped) \<and> fst (the (Map_get ds (mimeType popped))) \<le> cost popped)"

text \<open>
  One iteration of the \<open>while\<close> loop, on a worklist that is not empty.
  \<open>toProcess.pop()\<close> removes the last element of the array; \<open>concat\<close> appends.
  \<open>processed.set\<close> comes before the converter is called, so a converter that throws
  leaves the heap with the entry set.
\<close>

definition loop_body ::
  "('d \<Rightarrow> 'h) \<Rightarrow> 'u \<Rightarrow> ('m, 'c::ord, 'h, 'd, 'u, 'e) converter \<Rightarrow> ref
    \<Rightarrow> ('m, 'c, 'h) entry list \<Rightarrow> ('m, 'c, 'h) heap
    \<Rightarrow> ('e, ('m, 'c, 'h) entry list, ('m, 'c, 'h) heap) outcome" where
  "loop_body cached url' converter processed toProcess heap =
     (let popped = last toProcess;
          toProcess1 = butlast toProcess
      in if already_cheaper (heap ! processed) popped
         then Returns toProcess1 heap
         else
           let heap1 = heap[processed :=
                          Map_set (heap ! processed) (mimeType popped) (cost popped, data popped)]
           in case converter \<lparr>mimeType = mimeType popped, cost = cost popped,
                               data = data popped, url = url'\<rparr> of
                Inl err \<Rightarrow> Throws err heap1
              | Inr candidates \<Rightarrow>
                  Returns
                    (toProcess1 @
                       map (\<lambda>c. \<lparr>mimeType = mimeType c, cost = cost c, data = cached (data c)\<rparr>)
                         candidates)
                    heap1)"

text \<open>
  The loop. It need not end (a converter can offer a new mimetype at every call), so
  it is a partial function: \<open>None\<close> is a run that never leaves the loop.
\<close>

partial_function (option) while_loop ::
  "('d \<Rightarrow> 'h) \<Rightarrow> 'u \<Rightarrow> ('m, 'c::ord, 'h, 'd, 'u, 'e) converter \<Rightarrow> ref
    \<Rightarrow> ('m, 'c, 'h) entry list \<Rightarrow> ('m, 'c, 'h) heap
    \<Rightarrow> ('e, unit, ('m, 'c, 'h) heap) outcome option" where
  "while_loop cached url' converter processed toProcess heap =
     (if toProcess = [] then Some (Returns () heap)
      else case loop_body cached url' converter processed toProcess heap of
             Throws err heap' \<Rightarrow> Some (Throws err heap')
           | Returns toProcess' heap' \<Rightarrow>
               while_loop cached url' converter processed toProcess' heap')"

text \<open>
  The function: the worklist starts as the entries of the map \<open>dataset\<close> refers to,
  \<open>processed\<close> is a new map, and the reference to it is returned.
\<close>

definition applyConverterDataset ::
  "('d \<Rightarrow> 'h) \<Rightarrow> 'u \<Rightarrow> ref \<Rightarrow> ('m, 'c::ord, 'h, 'd, 'u, 'e) converter
    \<Rightarrow> ('m, 'c, 'h) heap \<Rightarrow> ('e, ref, ('m, 'c, 'h) heap) outcome option" where
  "applyConverterDataset cached url' dataset converter heap =
     (let toProcess = map (\<lambda>(mimeType', cost', data').
                              \<lparr>mimeType = mimeType', cost = cost', data = data'\<rparr>)
                        (heap ! dataset);
          (processed, heap0) = new_Map heap
      in case while_loop cached url' converter processed toProcess heap0 of
           None \<Rightarrow> None
         | Some (Throws err heap') \<Rightarrow> Some (Throws err heap')
         | Some (Returns _ heap') \<Rightarrow> Some (Returns processed heap'))"

text \<open>
  The state at the loop test after \<open>n\<close> full iterations, when the loop gets that far.
\<close>

fun after_iterations ::
  "('d \<Rightarrow> 'h) \<Rightarrow> 'u \<Rightarrow> ('m, 'c::ord, 'h, 'd, 'u, 'e) converter \<Rightarrow> ref \<Rightarrow> nat
    \<Rightarrow> ('m, 'c, 'h) entry list \<Rightarrow> ('m, 'c, 'h) heap
    \<Rightarrow> (('m, 'c, 'h) entry list \<times> ('m, 'c, 'h) heap) option" where
  "after_iterations cached url' converter processed 0 toProcess heap = Some (toProcess, heap)"
| "after_iterations cached url' converter processed (Suc n) toProcess heap =
     (if toProcess = [] then None
      else case loop_body cached url' converter processed toProcess heap of
             Throws err heap' \<Rightarrow> None
           | Returns toProcess' heap' \<Rightarrow>
               after_iterations cached url' converter processed n toProcess' heap')"

section \<open>Notions used by the properties\<close>

text \<open>
  A candidate \<open>(m, c)\<close> is covered when it still waits on the worklist, or when the
  map already holds \<open>m\<close> at a cost of at most \<open>c\<close>.
\<close>

definition covered ::
  "('m, 'c::ord, 'h) entry list \<Rightarrow> ('m, 'c, 'h) dataset \<Rightarrow> 'm \<Rightarrow> 'c \<Rightarrow> bool" where
  "covered toProcess ds m c \<longleftrightarrow>
     (\<exists>e \<in> set toProcess. mimeType e = m \<and> cost e = c)
     \<or> (\<exists>c' h'. map_of ds m = Some (c', h') \<and> c' \<le> c)"

text \<open>What a run on the map at \<open>p\<close> leaves alone: every other object of the heap.\<close>

definition frame :: "ref \<Rightarrow> ('m, 'c, 'h) heap \<Rightarrow> ('m, 'c, 'h) heap \<Rightarrow> bool" where
  "frame p heap h' \<longleftrightarrow> length h' = length heap \<and> (\<forall>a. a \<noteq> p \<longrightarrow> h' ! a = heap ! a)"

text \<open>
  The converter of the loop scenario: \<open>text/plain\<close> offers \<open>text/csv\<close> at cost 1,
  \<open>text/csv\<close> offers \<open>text/plain\<close> back at cost 5, every other mimetype nothing.
\<close>

definition loop_converter :: "'d \<Rightarrow> 'd \<Rightarrow> (string, int, 'h, 'd, 'u, 'e) converter" where
  "loop_converter Hx Hy =
     (\<lambda>dataset.
        if mimeType dataset = ''text/plain''
          then Inr [\<lparr>mimeType = ''text/csv'', cost = 1, data = Hx\<rparr>]
        else if mimeType dataset = ''text/csv''
          then Inr [\<lparr>mimeType = ''text/plain'', cost = 5, data = Hy\<rparr>]
        else Inr [])"

text \<open>A step that offers \<open>image/png\<close> at cost \<open>c\<close> from the mimetype \<open>source\<close> only.\<close>

definition offer_png :: "string \<Rightarrow> int \<Rightarrow> 'd \<Rightarrow> (string, int, 'h, 'd, 'u, 'e) converter" where
  "offer_png source c d =
     (\<lambda>dataset.
        if mimeType dataset = source
          then Inr [\<lparr>mimeType = ''image/png'', cost = c, data = d\<rparr>]
        else Inr [])"

text \<open>
  The converter is called on \<open>arg\<close> during the run: some number of iterations
  leads to a loop test with a worklist whose last entry is not skipped, and \<open>arg\<close>
  is what the loop body passes to the converter for it.
\<close>

definition converter_called ::
  "('d \<Rightarrow> 'h) \<Rightarrow> 'u \<Rightarrow> ref \<Rightarrow> ('m, 'c::ord, 'h, 'd, 'u, 'e) converter
    \<Rightarrow> ('m, 'c, 'h) heap \<Rightarrow> ('m, 'c, 'h, 'u) converter_arg \<Rightarrow> bool" where
  "converter_called cached url' dataset converter heap arg \<longleftrightarrow>
     (\<exists>n toProcess heap'.
        after_iterations cached url' converter (fst (new_Map heap)) n
          (map (\<lambda>(mimeType', cost', data').
                  \<lparr>mimeType = mimeType', cost = cost', data = data'\<rparr>) (heap ! dataset))
          (snd (new_Map heap)) = Some (toProcess, heap')
        \<and> toProcess \<noteq> []
        \<and> \<not> already_cheaper (heap' ! fst (new_Map heap)) (last toProcess)
        \<and> arg = \<lparr>mimeType = mimeType (last toProcess), cost = cost (last toProcess),
                   data = data (last toProcess), url = url'\<rparr>)"

text \<open>
  A converter that is not total: it offers \<open>text/csv\<close> from \<open>text/plain\<close> and
  throws on every other mimetype.
\<close>

definition failing_converter :: "(string, int, string option, string, string, string) converter" where
  "failing_converter =
     (\<lambda>dataset.
        if mimeType dataset = ''text/plain''
          then Inr [\<lparr>mimeType = ''text/csv'', cost = 1, data = ''Hx''\<rparr>]
        else Inl ''unsupported'')"

section \<open>The loop body and the loop\<close>

lemma already_cheaper_iff:
  "already_cheaper ds e \<longleftrightarrow> (\<exists>c h. map_of ds (mimeType e) = Some (c, h) \<and> c \<le> cost e)"
  by (auto simp: already_cheaper_def Map_has_def Map_get_def)

lemma loop_body_skip:
  "already_cheaper (heap ! p) e \<Longrightarrow>
     loop_body cached u conv p (rest @ [e]) heap = Returns rest heap"
  by (simp add: loop_body_def)

lemma loop_body_visit:
  "\<not> already_cheaper (heap ! p) e \<Longrightarrow>
     loop_body cached u conv p (rest @ [e]) heap =
       (case conv \<lparr>mimeType = mimeType e, cost = cost e, data = data e, url = u\<rparr> of
          Inl err \<Rightarrow> Throws err (heap[p := AList.update (mimeType e) (cost e, data e) (heap ! p)])
        | Inr cands \<Rightarrow>
            Returns (rest @ map (\<lambda>c. \<lparr>mimeType = mimeType c, cost = cost c, data = cached (data c)\<rparr>) cands)
              (heap[p := AList.update (mimeType e) (cost e, data e) (heap ! p)]))"
  by (simp add: loop_body_def Map_set_def Let_def)

lemma while_loop_invariant:
  assumes run: "while_loop cached u conv p tp heap = Some r"
    and init: "I tp heap"
    and step: "\<And>tp heap tp' heap'. I tp heap \<Longrightarrow> tp \<noteq> [] \<Longrightarrow>
                 loop_body cached u conv p tp heap = Returns tp' heap' \<Longrightarrow> I tp' heap'"
  shows "case r of
           Returns _ heap' \<Rightarrow> I [] heap'
         | Throws err heap' \<Rightarrow>
             (\<exists>tp heap. I tp heap \<and> tp \<noteq> [] \<and> loop_body cached u conv p tp heap = Throws err heap')"
proof -
  let ?Q = "\<lambda>r. case r of
           Returns _ heap' \<Rightarrow> I [] heap'
         | Throws err heap' \<Rightarrow>
             (\<exists>tp heap. I tp heap \<and> tp \<noteq> [] \<and> loop_body cached u conv p tp heap = Throws err heap')"
  have "cached = cached \<and> u = u \<and> conv = conv \<and> p = p \<longrightarrow> I tp heap \<longrightarrow> ?Q r"
  proof (rule while_loop.raw_induct
      [where P = "\<lambda>cached' u' conv' p' tp heap r.
          cached' = cached \<and> u' = u \<and> conv' = conv \<and> p' = p \<longrightarrow> I tp heap \<longrightarrow> ?Q r",
        OF _ run], goal_cases)
    case (1 w cached' u' conv' p' tp heap r)
    show ?case
    proof (intro impI, elim conjE)
      assume eqs: "cached' = cached" "u' = u" "conv' = conv" "p' = p" and I: "I tp heap"
      show "?Q r"
      proof (cases "tp = []")
        case True
        with 1(2) I show ?thesis by auto
      next
        case False
        show ?thesis
        proof (cases "loop_body cached u conv p tp heap")
          case (Throws err h')
          with 1(2) False eqs have "r = Throws err h'" by simp
          with Throws False I show ?thesis by auto
        next
          case (Returns tp' h')
          with 1(2) False eqs have "w cached u conv p tp' h' = Some r" by simp
          moreover have "I tp' h'" using step[OF I False Returns] .
          ultimately show ?thesis using 1(1) by blast
        qed
      qed
    qed
  qed
  with run init show ?thesis by blast
qed

lemma while_loop_processed:
  assumes run: "while_loop cached u conv p tp heap = Some (Returns x heap')"
    and p: "p < length heap"
    and init: "J tp (heap ! p)"
    and skip: "\<And>rest e pr. J (rest @ [e]) pr \<Longrightarrow> already_cheaper pr e \<Longrightarrow> J rest pr"
    and visit: "\<And>rest e pr cands. J (rest @ [e]) pr \<Longrightarrow> \<not> already_cheaper pr e \<Longrightarrow>
                  conv \<lparr>mimeType = mimeType e, cost = cost e, data = data e, url = u\<rparr> = Inr cands \<Longrightarrow>
                  J (rest @ map (\<lambda>c. \<lparr>mimeType = mimeType c, cost = cost c, data = cached (data c)\<rparr>) cands)
                    (AList.update (mimeType e) (cost e, data e) pr)"
  shows "J [] (heap' ! p)"
proof -
  let ?I = "\<lambda>tp h. p < length h \<and> J tp (h ! p)"
  have step: "?I tp' h'" if I: "?I tp h" and ne: "tp \<noteq> []"
    and body: "loop_body cached u conv p tp h = Returns tp' h'" for tp h tp' h'
  proof -
    obtain rest e where tp: "tp = rest @ [e]"
      using ne by (metis append_butlast_last_id)
    show ?thesis
    proof (cases "already_cheaper (h ! p) e")
      case True
      with body tp have "tp' = rest" "h' = h" by (simp_all add: loop_body_skip)
      with I tp True skip show ?thesis by blast
    next
      case False
      note vis = loop_body_visit[OF False, of cached u conv rest]
      show ?thesis
      proof (cases "conv \<lparr>mimeType = mimeType e, cost = cost e, data = data e, url = u\<rparr>")
        case (Inl err)
        with body tp vis show ?thesis by simp
      next
        case (Inr cands)
        with body tp vis have
          tp': "tp' = rest @ map (\<lambda>c. \<lparr>mimeType = mimeType c, cost = cost c, data = cached (data c)\<rparr>) cands"
          and h': "h' = h[p := AList.update (mimeType e) (cost e, data e) (h ! p)]"
          by simp_all
        from I tp have "J (rest @ [e]) (h ! p)" by simp
        from visit[OF this False Inr] I show ?thesis by (simp add: tp' h')
      qed
    qed
  qed
  have "case Returns x heap' of
      Returns _ h' \<Rightarrow> ?I [] h'
    | Throws err h' \<Rightarrow> (\<exists>tp h. ?I tp h \<and> tp \<noteq> [] \<and> loop_body cached u conv p tp h = Throws err h')"
  proof (rule while_loop_invariant[where I = ?I, OF run])
    show "?I tp heap" using p init by simp
  next
    fix tp h tp' h'
    assume "?I tp h" "tp \<noteq> []" "loop_body cached u conv p tp h = Returns tp' h'"
    then show "?I tp' h'" by (rule step)
  qed
  then show ?thesis by simp
qed

lemma loop_body_heap:
  "loop_body cached u conv p tp h = Returns tp' h' \<or> loop_body cached u conv p tp h = Throws err h'
     \<Longrightarrow> h' = h \<or> h' = h[p := AList.update (mimeType (last tp)) (cost (last tp), data (last tp)) (h ! p)]"
  unfolding loop_body_def Let_def Map_set_def
  by (cases "already_cheaper (h ! p) (last tp)";
      cases "conv \<lparr>mimeType = mimeType (last tp), cost = cost (last tp), data = data (last tp), url = u\<rparr>")
     auto

lemma frame_body:
  assumes "loop_body cached u conv p tp h = Returns tp' h' \<or> loop_body cached u conv p tp h = Throws err h'"
    and "frame p heap h"
  shows "frame p heap h'"
  using loop_body_heap[OF assms(1)] assms(2) by (auto simp: frame_def)

lemma while_loop_frame:
  assumes run: "while_loop cached u conv p tp heap = Some r"
  shows "case r of Throws _ h' \<Rightarrow> frame p heap h' | Returns _ h' \<Rightarrow> frame p heap h'"
proof -
  let ?I = "\<lambda>(tp::(_, _, _) entry list) h. frame p heap h"
  have inv: "case r of
      Returns _ h' \<Rightarrow> ?I [] h'
    | Throws err h' \<Rightarrow> (\<exists>tp h. ?I tp h \<and> tp \<noteq> [] \<and> loop_body cached u conv p tp h = Throws err h')"
  proof (rule while_loop_invariant[where I = ?I, OF run])
    show "?I tp heap" by (simp add: frame_def)
  next
    fix tp h tp' h'
    assume "?I tp h" "loop_body cached u conv p tp h = Returns tp' h'"
    then show "?I tp' h'" using frame_body[of cached u conv p tp h tp' h'] by simp
  qed
  show ?thesis
  proof (cases r)
    case (Throws err h')
    with inv obtain tp0 h0 where "frame p heap h0" "loop_body cached u conv p tp0 h0 = Throws err h'"
      by auto
    then have "frame p heap h'" using frame_body[of cached u conv p tp0 h0 _ h' err] by simp
    with Throws show ?thesis by simp
  next
    case (Returns x h')
    with inv show ?thesis by simp
  qed
qed

lemma applyConverterDataset_Returns:
  "applyConverterDataset cached u ds conv heap = Some (Returns result heap') \<longleftrightarrow>
     result = length heap \<and>
     while_loop cached u conv (length heap)
       (map (\<lambda>(m, c, d). \<lparr>mimeType = m, cost = c, data = d\<rparr>) (heap ! ds)) (heap @ [[]])
       = Some (Returns () heap')"
  by (auto simp: applyConverterDataset_def new_Map_def split: option.splits outcome.splits)

lemma applyConverterDataset_Throws:
  "applyConverterDataset cached u ds conv heap = Some (Throws err heap') \<longleftrightarrow>
     while_loop cached u conv (length heap)
       (map (\<lambda>(m, c, d). \<lparr>mimeType = m, cost = c, data = d\<rparr>) (heap ! ds)) (heap @ [[]])
       = Some (Throws err heap')"
  by (auto simp: applyConverterDataset_def new_Map_def split: option.splits outcome.splits)

section \<open>Covered candidates\<close>

lemma covered_skip:
  assumes "covered (rest @ [e]) pr m c" "already_cheaper pr e"
  shows "covered rest pr m c"
  using assms unfolding covered_def already_cheaper_iff by auto

lemma covered_visit:
  fixes c :: "'c::linorder"
  assumes "covered (rest @ [e]) pr m c" "\<not> already_cheaper pr e"
  shows "covered (rest @ new) (AList.update (mimeType e) (cost e, d) pr) m c"
proof -
  from assms(1) consider
    (work) e' where "e' \<in> set rest" "mimeType e' = m" "cost e' = c"
    | (top) "mimeType e = m" "cost e = c"
    | (stored) c' h' where "map_of pr m = Some (c', h')" "c' \<le> c"
    unfolding covered_def by auto
  then show ?thesis
  proof cases
    case work
    then show ?thesis unfolding covered_def by auto
  next
    case top
    then show ?thesis unfolding covered_def by (auto simp: update_conv')
  next
    case stored
    show ?thesis
    proof (cases "mimeType e = m")
      case True
      with stored assms(2) have "cost e < c'" unfolding already_cheaper_iff by auto
      with stored True show ?thesis unfolding covered_def by (auto simp: update_conv')
    next
      case False
      with stored show ?thesis unfolding covered_def by (auto simp: update_conv')
    qed
  qed
qed

lemma covered_Nil:
  "covered [] pr m c \<longleftrightarrow> (\<exists>c' h'. map_of pr m = Some (c', h') \<and> c' \<le> c)"
  by (simp add: covered_def)

section \<open>The two scenarios, run\<close>

lemma loop_scenario_run:
  assumes "heap ! dataset = [(''text/plain'', (0, H0))]"
  shows "applyConverterDataset cached u dataset (loop_converter Hx Hy) heap =
     Some (Returns (length heap)
       (heap @ [[(''text/plain'', (0, H0)), (''text/csv'', (1, cached Hx))]]))"
  using assms
  by (simp add: applyConverterDataset_def new_Map_def while_loop.simps loop_body_def
      already_cheaper_def Map_has_def Map_get_def Map_set_def loop_converter_def Let_def)

lemma png_scenario_run:
  assumes "heap ! dataset = [(source, (c0, H0))]" "source \<noteq> ''image/png''"
  shows "applyConverterDataset cached u dataset
           (combineManyConverters [offer_png source 3 Ha, offer_png source 2 Hb]) heap =
         Some (Returns (length heap) (heap @ [[(source, (c0, H0)), (''image/png'', (2, cached Hb))]]))"
    and "applyConverterDataset cached u dataset
           (combineManyConverters [offer_png source 2 Hb, offer_png source 3 Ha]) heap =
         Some (Returns (length heap) (heap @ [[(source, (c0, H0)), (''image/png'', (2, cached Hb))]]))"
  using assms assms(2)[symmetric]
  by (simp_all add: applyConverterDataset_def new_Map_def while_loop.simps loop_body_def
      already_cheaper_def Map_has_def Map_get_def Map_set_def offer_png_def Let_def
      combineManyConverters_def)

section \<open>What every entry of the result went through\<close>

lemma candidates_covered:
  fixes heap :: "('m, 'c::linorder, 'h) heap" and cached :: "'d \<Rightarrow> 'h"
  assumes run: "applyConverterDataset cached u dataset converter heap = Some (Returns result heap')"
  shows "distinct (map fst (heap' ! result)) \<and>
         (\<forall>m c h. map_of (heap' ! result) m = Some (c, h) \<longrightarrow>
            (\<exists>candidates. converter \<lparr>mimeType = m, cost = c, data = h, url = u\<rparr> = Inr candidates \<and>
               (\<forall>C \<in> set candidates. covered [] (heap' ! result) (mimeType C) (cost C))))"
proof -
  let ?tp = "map (\<lambda>(m, c, d). \<lparr>mimeType = m, cost = c, data = d\<rparr>) (heap ! dataset)"
  let ?J = "\<lambda>(tp::('m, 'c, 'h) entry list) pr.
      distinct (map fst pr) \<and>
      (\<forall>m c h. map_of pr m = Some (c, h) \<longrightarrow>
         (\<exists>candidates. converter \<lparr>mimeType = m, cost = c, data = h, url = u\<rparr> = Inr candidates \<and>
            (\<forall>C \<in> set candidates. covered tp pr (mimeType C) (cost C))))"
  from run have res: "result = length heap"
    and loop: "while_loop cached u converter (length heap) ?tp (heap @ [[]]) = Some (Returns () heap')"
    by (simp_all add: applyConverterDataset_Returns)
  have "?J [] (heap' ! length heap)"
  proof (rule while_loop_processed[where J = ?J, OF loop])
    show "length heap < length (heap @ [[]])" by simp
  next
    show "?J ?tp ((heap @ [[]]) ! length heap)" by simp
  next
    fix rest e pr
    assume J: "?J (rest @ [e]) pr" and ch: "already_cheaper pr e"
    show "?J rest pr"
    proof (intro conjI allI impI)
      show "distinct (map fst pr)" using J by simp
    next
      fix m c h assume "map_of pr m = Some (c, h)"
      with J obtain candidates where
        "converter \<lparr>mimeType = m, cost = c, data = h, url = u\<rparr> = Inr candidates"
        "\<forall>C \<in> set candidates. covered (rest @ [e]) pr (mimeType C) (cost C)"
        by blast
      with ch show "\<exists>candidates. converter \<lparr>mimeType = m, cost = c, data = h, url = u\<rparr> = Inr candidates \<and>
               (\<forall>C \<in> set candidates. covered rest pr (mimeType C) (cost C))"
        by (blast intro: covered_skip)
    qed
  next
    fix rest and e :: "('m, 'c, 'h) entry" and pr and cands :: "('m, 'c, 'd) entry list"
    let ?new = "map (\<lambda>c. \<lparr>mimeType = mimeType c, cost = cost c, data = cached (data c)\<rparr>) cands"
    let ?pr = "AList.update (mimeType e) (cost e, data e) pr"
    assume J: "?J (rest @ [e]) pr" and nch: "\<not> already_cheaper pr e"
      and conv: "converter \<lparr>mimeType = mimeType e, cost = cost e, data = data e, url = u\<rparr> = Inr cands"
    show "?J (rest @ ?new) ?pr"
    proof (intro conjI allI impI)
      show "distinct (map fst ?pr)" using J by (simp add: distinct_update)
    next
      fix m c h assume look: "map_of ?pr m = Some (c, h)"
      show "\<exists>candidates. converter \<lparr>mimeType = m, cost = c, data = h, url = u\<rparr> = Inr candidates \<and>
               (\<forall>C \<in> set candidates. covered (rest @ ?new) ?pr (mimeType C) (cost C))"
      proof (cases "m = mimeType e")
        case True
        with look have "c = cost e" "h = data e" by (simp_all add: update_conv')
        moreover have "covered (rest @ ?new) ?pr (mimeType C) (cost C)" if "C \<in> set cands" for C
          unfolding covered_def using that by force
        ultimately show ?thesis using conv True by blast
      next
        case False
        with look have "map_of pr m = Some (c, h)" by (simp add: update_conv')
        with J obtain candidates where
          "converter \<lparr>mimeType = m, cost = c, data = h, url = u\<rparr> = Inr candidates"
          "\<forall>C \<in> set candidates. covered (rest @ [e]) pr (mimeType C) (cost C)"
          by blast
        with nch show ?thesis by (blast intro: covered_visit)
      qed
    qed
  qed
  then show ?thesis by (simp add: res)
qed

section \<open>Failures of the converter\<close>

lemma while_loop_after_iterations:
  "after_iterations cached u conv p n tp h = Some (tp', h') \<Longrightarrow>
     while_loop cached u conv p tp h = while_loop cached u conv p tp' h'"
proof (induction n arbitrary: tp h)
  case 0
  then show ?case by simp
next
  case (Suc n)
  from Suc.prems have ne: "tp \<noteq> []" by (simp split: if_splits)
  from Suc.prems ne obtain tp1 h1 where
    body: "loop_body cached u conv p tp h = Returns tp1 h1"
    and rest: "after_iterations cached u conv p n tp1 h1 = Some (tp', h')"
    by (auto split: outcome.splits)
  from ne body have "while_loop cached u conv p tp h = while_loop cached u conv p tp1 h1"
    by (subst while_loop.simps) simp
  with Suc.IH[OF rest] show ?case by simp
qed

lemma loop_body_Throws:
  assumes "loop_body cached u conv p tp h = Throws err h'"
  shows "conv \<lparr>mimeType = mimeType (last tp), cost = cost (last tp),
                data = data (last tp), url = u\<rparr> = Inl err"
  using assms unfolding loop_body_def Let_def
  by (cases "already_cheaper (h ! p) (last tp)";
      cases "conv \<lparr>mimeType = mimeType (last tp), cost = cost (last tp), data = data (last tp), url = u\<rparr>")
     auto

lemma while_loop_Throws:
  fixes heap :: "('m, 'c::ord, 'h) heap" and cached :: "'d \<Rightarrow> 'h"
  assumes run: "while_loop cached u conv p tp heap = Some (Throws err heap')"
  shows "\<exists>arg. conv arg = Inl err"
proof -
  let ?I = "\<lambda>(tp::('m, 'c, 'h) entry list) (h::('m, 'c, 'h) heap). True"
  have "case (Throws err heap' :: (_, unit, _) outcome) of
      Returns _ h' \<Rightarrow> ?I [] h'
    | Throws err h' \<Rightarrow> (\<exists>tp h. ?I tp h \<and> tp \<noteq> [] \<and> loop_body cached u conv p tp h = Throws err h')"
    by (rule while_loop_invariant[where I = ?I, OF run]) simp_all
  then obtain tp0 h0 where "loop_body cached u conv p tp0 h0 = Throws err heap'" by auto
  from loop_body_Throws[OF this] show ?thesis ..
qed

section \<open>The combinator, and a run without converters\<close>

lemma map_converters_Inr:
  "map (\<lambda>c. c d) converters = map Inr rs \<Longrightarrow> map_converters converters d = Inr rs"
proof (induction converters arbitrary: rs)
  case Nil
  then show ?case by simp
next
  case (Cons c cs)
  then obtain r rs' where "rs = r # rs'" "c d = Inr r" "map (\<lambda>c. c d) cs = map Inr rs'"
    by (cases rs) auto
  with Cons.IH[of rs'] show ?case by simp
qed

lemma foldl_concat: "foldl (\<lambda>l r. l @ r) acc rs = acc @ concat rs"
  by (induction rs arbitrary: acc) simp_all

lemma combine_no_converters: "combineManyConverters [] = (\<lambda>arg. Inr [])"
  by (simp add: combineManyConverters_def)

lemma update_absent: "map_of al k = None \<Longrightarrow> AList.update k v al = al @ [(k, v)]"
  by (induction al) (auto split: if_splits)

lemma map_of_rev_distinct: "distinct (map fst xs) \<Longrightarrow> map_of (rev xs) = map_of xs"
proof (induction xs)
  case Nil
  then show ?case by simp
next
  case (Cons x xs)
  then have "fst x \<notin> fst ` set xs" by simp
  then have "map_of xs (fst x) = None" by (simp add: map_of_eq_None_iff)
  with Cons show ?case
    by (cases x) (auto simp: map_add_def fun_eq_iff split: option.splits)
qed

lemma no_converters_loop:
  fixes heap :: "('m, 'c::ord, 'h) heap" and cached :: "'d \<Rightarrow> 'h"
    and conv :: "('m, 'c, 'h, 'd, 'u, 'e) converter"
  assumes "p < length heap" "distinct (map mimeType tp)"
    "\<forall>e \<in> set tp. map_of (heap ! p) (mimeType e) = None"
    and none: "\<And>arg. conv arg = Inr []"
  shows "while_loop cached u conv p tp heap =
     Some (Returns () (heap[p := heap ! p @ map (\<lambda>e. (mimeType e, cost e, data e)) (rev tp)]))"
  using assms
proof (induction tp arbitrary: heap rule: rev_induct)
  case Nil
  then show ?case by (simp add: while_loop.simps)
next
  case (snoc e rest)
  let ?h1 = "heap[p := AList.update (mimeType e) (cost e, data e) (heap ! p)]"
  from snoc.prems have absent: "map_of (heap ! p) (mimeType e) = None" by simp
  then have nch: "\<not> already_cheaper (heap ! p) e" by (simp add: already_cheaper_iff)
  have body: "loop_body cached u conv p (rest @ [e]) heap = Returns rest ?h1"
    by (simp add: loop_body_visit[OF nch] none)
  have upd: "AList.update (mimeType e) (cost e, data e) (heap ! p) = heap ! p @ [(mimeType e, cost e, data e)]"
    by (rule update_absent[OF absent])
  have "while_loop cached u conv p (rest @ [e]) heap =
        while_loop cached u conv p rest ?h1"
    using body by (subst while_loop.simps) simp
  also have "\<dots> = Some (Returns () (?h1[p := ?h1 ! p @ map (\<lambda>e. (mimeType e, cost e, data e)) (rev rest)]))"
  proof (rule snoc.IH[OF _ _ _ none])
    show "p < length ?h1" using snoc.prems by simp
    show "distinct (map mimeType rest)" using snoc.prems by simp
    show "\<forall>e' \<in> set rest. map_of (?h1 ! p) (mimeType e') = None"
    proof
      fix e' assume e': "e' \<in> set rest"
      from snoc.prems(2) have "mimeType e \<notin> mimeType ` set rest" by simp
      with e' have "mimeType e' \<noteq> mimeType e" by (metis imageI)
      moreover from e' snoc.prems(3) have "map_of (heap ! p) (mimeType e') = None" by simp
      ultimately have "mimeType e' \<noteq> mimeType e" "map_of (heap ! p) (mimeType e') = None" .
      with snoc.prems(1) show "map_of (?h1 ! p) (mimeType e') = None"
        by (simp add: update_conv')
    qed
  qed
  also have "?h1[p := ?h1 ! p @ map (\<lambda>e. (mimeType e, cost e, data e)) (rev rest)] =
             heap[p := heap ! p @ map (\<lambda>e. (mimeType e, cost e, data e)) (rev (rest @ [e]))]"
    using snoc.prems(1) by (simp add: upd)
  finally show ?case .
qed

lemma no_converters_run:
  fixes heap :: "('m, 'c::ord, 'h) heap" and cached :: "'d \<Rightarrow> 'h"
    and conv :: "('m, 'c, 'h, 'd, 'u, 'e) converter"
  assumes "distinct (map fst (heap ! dataset))" and none: "\<And>arg. conv arg = Inr []"
  shows "applyConverterDataset cached u dataset conv heap =
           Some (Returns (length heap) (heap @ [rev (heap ! dataset)]))"
proof -
  let ?tp = "map (\<lambda>(m, c, d). \<lparr>mimeType = m, cost = c, data = d\<rparr>) (heap ! dataset)"
  have keys: "mimeType \<circ> (\<lambda>(m, c, d). \<lparr>mimeType = m, cost = c, data = d\<rparr>)
                = (fst :: 'm \<times> 'c \<times> 'h \<Rightarrow> _)"
    by (auto simp: fun_eq_iff)
  have unmap: "map (\<lambda>e. (mimeType e, cost e, data e)) (rev ?tp) = rev (heap ! dataset)"
  proof -
    have "(\<lambda>e. (mimeType e, cost e, data e)) \<circ> (\<lambda>(m, c, d). \<lparr>mimeType = m, cost = c, data = d\<rparr>)
            = (id :: 'm \<times> 'c \<times> 'h \<Rightarrow> _)"
      by (auto simp: fun_eq_iff)
    then show ?thesis by (simp add: rev_map)
  qed
  have "while_loop cached u conv (length heap) ?tp (heap @ [[]]) =
     Some (Returns () ((heap @ [[]])[length heap :=
        (heap @ [[]]) ! length heap @ map (\<lambda>e. (mimeType e, cost e, data e)) (rev ?tp)]))"
    by (rule no_converters_loop) (simp_all add: keys assms)
  then have "while_loop cached u conv (length heap) ?tp (heap @ [[]]) =
     Some (Returns () (heap @ [rev (heap ! dataset)]))"
    by (simp add: unmap)
  then show ?thesis by (simp add: applyConverterDataset_Returns)
qed

section \<open>The loop scenario on a heap that holds the seed only\<close>

lemma loop_scenario_concrete:
  "applyConverterDataset Some ''url'' 0
       (loop_converter ''Hx'' ''Hy'' :: (string, int, string option, string, string, unit) converter)
       [[(''text/plain'', (0, Some ''H0''))]]
     = Some (Returns 1 [[(''text/plain'', (0, Some ''H0''))],
                        [(''text/plain'', (0, Some ''H0'')), (''text/csv'', (1, Some ''Hx''))]])"
  by (simp add: loop_scenario_run)

section \<open>Properties\<close>

text \<open>
  C1. No cheaper edge. When the call returns, take any entry \<open>(m, c, h)\<close> of the
  returned dataset. The converter returns candidates on it (it was called on exactly
  this entry when the entry was stored), and for every candidate \<open>C\<close> either the
  mimetype of \<open>C\<close> is not a key of the returned dataset, or the returned dataset holds
  it at a cost less than or equal to the cost of \<open>C\<close>.
\<close>

theorem no_cheaper_edge:
  fixes heap :: "('m, 'c::linorder, 'h) heap" and cached :: "'d \<Rightarrow> 'h"
  assumes run: "applyConverterDataset cached u dataset converter heap = Some (Returns result heap')"
    and E: "(m, c, h) \<in> set (heap' ! result)"
  shows "\<exists>candidates.
           converter \<lparr>mimeType = m, cost = c, data = h, url = u\<rparr> = Inr candidates \<and>
           (\<forall>C \<in> set candidates.
              \<not> Map_has (heap' ! result) (mimeType C) \<or>
              (\<exists>c' h'. Map_get (heap' ! result) (mimeType C) = Some (c', h') \<and> c' \<le> cost C))"
proof -
  note cc = candidates_covered[OF run]
  from cc E have "map_of (heap' ! result) m = Some (c, h)" by simp
  with cc obtain candidates where
    "converter \<lparr>mimeType = m, cost = c, data = h, url = u\<rparr> = Inr candidates"
    "\<forall>C \<in> set candidates. covered [] (heap' ! result) (mimeType C) (cost C)"
    by blast
  then show ?thesis by (auto simp: covered_Nil Map_get_def)
qed

theorem no_cheaper_edge_witness:
  "applyConverterDataset Some ''url'' 0
       (loop_converter ''Hx'' ''Hy'' :: (string, int, string option, string, string, unit) converter)
       [[(''text/plain'', (0, Some ''H0''))]]
     = Some (Returns 1 [[(''text/plain'', (0, Some ''H0''))],
                        [(''text/plain'', (0, Some ''H0'')), (''text/csv'', (1, Some ''Hx''))]])
   \<and> (''text/csv'', 1, Some ''Hx'')
        \<in> set ([[(''text/plain'', (0, Some ''H0''))],
                 [(''text/plain'', (0::int, Some ''H0'')), (''text/csv'', (1, Some ''Hx''))]] ! 1)
   \<and> (\<exists>candidates.
        (loop_converter ''Hx'' ''Hy'' :: (string, int, string option, string, string, unit) converter)
          \<lparr>mimeType = ''text/csv'', cost = 1, data = Some ''Hx'', url = ''url''\<rparr> = Inr candidates \<and>
        (\<forall>C \<in> set candidates.
           \<not> Map_has ([[(''text/plain'', (0, Some ''H0''))],
                 [(''text/plain'', (0::int, Some ''H0'')), (''text/csv'', (1, Some ''Hx''))]] ! 1) (mimeType C) \<or>
           (\<exists>c' h'. Map_get ([[(''text/plain'', (0, Some ''H0''))],
                 [(''text/plain'', (0::int, Some ''H0'')), (''text/csv'', (1, Some ''Hx''))]] ! 1) (mimeType C)
                        = Some (c', h') \<and> c' \<le> cost C)))"
proof -
  note run = loop_scenario_concrete
  have E: "(''text/csv'', 1, Some ''Hx'')
        \<in> set ([[(''text/plain'', (0, Some ''H0''))],
                 [(''text/plain'', (0::int, Some ''H0'')), (''text/csv'', (1, Some ''Hx''))]] ! 1)"
    by simp
  from no_cheaper_edge[OF run E] run E show ?thesis by (intro conjI)
qed

text \<open>
  C2. The loop scenario. The seed is \<open>{text/plain: (0, H0)}\<close> and the converter is
  \<open>loop_converter\<close>. The call returns, and the returned dataset maps
  \<open>text/plain\<close> to cost 0 and \<open>text/csv\<close> to cost 1 and holds nothing else: the
  cost-5 candidate back to \<open>text/plain\<close> is not in it.
\<close>

theorem loop_scenario:
  assumes "heap ! dataset = [(''text/plain'', (0, H0))]"
  shows "\<exists>heap'.
           applyConverterDataset cached u dataset (loop_converter Hx Hy) heap
             = Some (Returns (length heap) heap') \<and>
           map (\<lambda>(m, c, h). (m, c)) (heap' ! length heap) = [(''text/plain'', 0), (''text/csv'', 1)]"
  by (simp add: loop_scenario_run[OF assms])

theorem loop_scenario_witness:
  "[[(''text/plain'', (0::int, Some ''H0''))]] ! 0 = [(''text/plain'', (0, Some ''H0''))]
   \<and> (\<exists>heap'.
         applyConverterDataset Some ''url'' 0
           (loop_converter ''Hx'' ''Hy'' :: (string, int, string option, string, string, unit) converter)
           [[(''text/plain'', (0, Some ''H0''))]]
           = Some (Returns (length [[(''text/plain'', (0::int, Some ''H0''))]]) heap') \<and>
         map (\<lambda>(m, c, h). (m, c)) (heap' ! length [[(''text/plain'', (0::int, Some ''H0''))]])
           = [(''text/plain'', 0), (''text/csv'', 1)])"
proof -
  have seed: "[[(''text/plain'', (0::int, Some ''H0''))]] ! 0 = [(''text/plain'', (0, Some ''H0''))]"
    by simp
  from loop_scenario[OF seed] seed show ?thesis by (intro conjI)
qed

text \<open>
  C3. Two steps offer \<open>image/png\<close> from the one seed entry, of a mimetype
  \<open>source\<close> other than \<open>image/png\<close>, at costs 3 and 2. Combined in either order
  with \<open>combineManyConverters\<close>, the call returns a dataset that maps
  \<open>image/png\<close> to cost 2.
\<close>

theorem cheapest_png_either_order:
  assumes "heap ! dataset = [(source, (c0, H0))]" and "source \<noteq> ''image/png''"
  shows "(\<exists>heap'.
            applyConverterDataset cached u dataset
              (combineManyConverters [offer_png source 3 Ha, offer_png source 2 Hb]) heap
              = Some (Returns (length heap) heap') \<and>
            map_option fst (Map_get (heap' ! length heap) ''image/png'') = Some 2)
       \<and> (\<exists>heap'.
            applyConverterDataset cached u dataset
              (combineManyConverters [offer_png source 2 Hb, offer_png source 3 Ha]) heap
              = Some (Returns (length heap) heap') \<and>
            map_option fst (Map_get (heap' ! length heap) ''image/png'') = Some 2)"
  using assms(2) by (simp add: png_scenario_run[OF assms] Map_get_def)

theorem cheapest_png_either_order_witness:
  "[[(''text/csv'', (0::int, Some ''H0''))]] ! 0 = [(''text/csv'', (0, Some ''H0''))]
   \<and> ''text/csv'' \<noteq> ''image/png''
   \<and> (\<exists>heap'.
         applyConverterDataset Some ''url'' 0
           (combineManyConverters [offer_png ''text/csv'' 3 ''Ha'', offer_png ''text/csv'' 2 ''Hb'']
              :: (string, int, string option, string, string, unit) converter)
           [[(''text/csv'', (0, Some ''H0''))]]
           = Some (Returns (length [[(''text/csv'', (0::int, Some ''H0''))]]) heap') \<and>
         map_option fst (Map_get (heap' ! length [[(''text/csv'', (0::int, Some ''H0''))]]) ''image/png'')
           = Some 2)
   \<and> (\<exists>heap'.
         applyConverterDataset Some ''url'' 0
           (combineManyConverters [offer_png ''text/csv'' 2 ''Hb'', offer_png ''text/csv'' 3 ''Ha'']
              :: (string, int, string option, string, string, unit) converter)
           [[(''text/csv'', (0, Some ''H0''))]]
           = Some (Returns (length [[(''text/csv'', (0::int, Some ''H0''))]]) heap') \<and>
         map_option fst (Map_get (heap' ! length [[(''text/csv'', (0::int, Some ''H0''))]]) ''image/png'')
           = Some 2)"
proof -
  have seed: "[[(''text/csv'', (0::int, Some ''H0''))]] ! 0 = [(''text/csv'', (0, Some ''H0''))]"
    by simp
  have src: "''text/csv'' \<noteq> ''image/png''" by simp
  show ?thesis by (rule conjI[OF seed conjI[OF src cheapest_png_either_order[OF seed src]]])
qed

text \<open>
  C4. Monotonic cost. When the call returns, every mimetype \<open>m\<close> that is a key of
  the seed is a key of the returned dataset, at a cost less than or equal to the
  seed's cost for \<open>m\<close>.
\<close>

theorem seed_cost_not_raised:
  fixes heap :: "('m, 'c::linorder, 'h) heap" and cached :: "'d \<Rightarrow> 'h"
  assumes run: "applyConverterDataset cached u dataset converter heap = Some (Returns result heap')"
    and seed: "Map_get (heap ! dataset) m = Some (c, h)"
  shows "\<exists>c' h'. Map_get (heap' ! result) m = Some (c', h') \<and> c' \<le> c"
proof -
  let ?seed = "heap ! dataset"
  let ?tp = "map (\<lambda>(m, c, d). \<lparr>mimeType = m, cost = c, data = d\<rparr>) ?seed"
  let ?J = "\<lambda>(tp::('m, 'c, 'h) entry list) pr. \<forall>(m, c, h) \<in> set ?seed. covered tp pr m c"
  from run have res: "result = length heap"
    and loop: "while_loop cached u converter (length heap) ?tp (heap @ [[]]) = Some (Returns () heap')"
    by (simp_all add: applyConverterDataset_Returns)
  have "?J [] (heap' ! length heap)"
  proof (rule while_loop_processed[where J = ?J, OF loop])
    show "length heap < length (heap @ [[]])" by simp
  next
    show "?J ?tp ((heap @ [[]]) ! length heap)"
      by (force simp: covered_def)
  next
    fix rest e pr
    assume "?J (rest @ [e]) pr" "already_cheaper pr e"
    then show "?J rest pr" by (blast intro: covered_skip)
  next
    fix rest e pr cands
    assume "?J (rest @ [e]) pr" "\<not> already_cheaper pr e"
    then show "?J (rest @ map (\<lambda>c. \<lparr>mimeType = mimeType c, cost = cost c, data = cached (data c)\<rparr>) cands)
                 (AList.update (mimeType e) (cost e, data e) pr)"
      by (blast intro: covered_visit)
  qed
  moreover from seed have "(m, c, h) \<in> set ?seed"
    by (simp add: Map_get_def map_of_SomeD)
  ultimately have "covered [] (heap' ! length heap) m c" by blast
  then show ?thesis by (simp add: covered_Nil res Map_get_def)
qed

theorem seed_cost_not_raised_witness:
  "applyConverterDataset Some ''url'' 0
       (loop_converter ''Hx'' ''Hy'' :: (string, int, string option, string, string, unit) converter)
       [[(''text/plain'', (0, Some ''H0''))]]
     = Some (Returns 1 [[(''text/plain'', (0, Some ''H0''))],
                        [(''text/plain'', (0, Some ''H0'')), (''text/csv'', (1, Some ''Hx''))]])
   \<and> Map_get ([[(''text/plain'', (0::int, Some ''H0''))]] ! 0) ''text/plain'' = Some (0, Some ''H0'')
   \<and> (\<exists>c' h'. Map_get ([[(''text/plain'', (0, Some ''H0''))],
                          [(''text/plain'', (0, Some ''H0'')), (''text/csv'', (1, Some ''Hx''))]] ! 1)
                  ''text/plain'' = Some (c', h') \<and> c' \<le> (0::int))"
proof -
  note run = loop_scenario_concrete
  have seed: "Map_get ([[(''text/plain'', (0::int, Some ''H0''))]] ! 0) ''text/plain''
                = Some (0, Some ''H0'')"
    by (simp add: Map_get_def)
  show ?thesis by (rule conjI[OF run conjI[OF seed seed_cost_not_raised[OF run seed]]])
qed

text \<open>
  C5. The combined converter concatenates. When every step returns on the entry
  \<open>d\<close> (step \<open>i\<close> returns the list \<open>rs ! i\<close>), the combined converter returns
  the concatenation of these lists, in the order of the steps and with each list in
  its own order. In particular two steps \<open>a\<close> and \<open>b\<close> give the candidates of
  \<open>a\<close> followed by those of \<open>b\<close>.
\<close>

theorem combine_is_concatenation:
  "(map (\<lambda>c. c d) converters = map Inr rs \<longrightarrow>
      combineManyConverters converters d = Inr (concat rs))
   \<and> (a d = Inr ra \<and> b d = Inr rb \<longrightarrow> combineManyConverters [a, b] d = Inr (ra @ rb))"
  by (simp add: combineManyConverters_def map_converters_Inr foldl_concat)

theorem combine_is_concatenation_witness:
  "map (\<lambda>c. c \<lparr>mimeType = ''text/csv'', cost = 0, data = Some ''H0'', url = ''url''\<rparr>)
       [offer_png ''text/csv'' 3 ''Ha'' :: (string, int, string option, string, string, unit) converter,
        offer_png ''text/csv'' 2 ''Hb'']
     = map Inr [[\<lparr>mimeType = ''image/png'', cost = 3, data = ''Ha''\<rparr>],
                [\<lparr>mimeType = ''image/png'', cost = 2, data = ''Hb''\<rparr>]]
   \<and> combineManyConverters
       [offer_png ''text/csv'' 3 ''Ha'' :: (string, int, string option, string, string, unit) converter,
        offer_png ''text/csv'' 2 ''Hb'']
       \<lparr>mimeType = ''text/csv'', cost = 0, data = Some ''H0'', url = ''url''\<rparr>
     = Inr [\<lparr>mimeType = ''image/png'', cost = 3, data = ''Ha''\<rparr>,
            \<lparr>mimeType = ''image/png'', cost = 2, data = ''Hb''\<rparr>]
   \<and> (offer_png ''text/csv'' 3 ''Ha'' :: (string, int, string option, string, string, unit) converter)
       \<lparr>mimeType = ''text/csv'', cost = 0, data = Some ''H0'', url = ''url''\<rparr>
     = Inr [\<lparr>mimeType = ''image/png'', cost = 3, data = ''Ha''\<rparr>]
   \<and> (offer_png ''text/csv'' 2 ''Hb'' :: (string, int, string option, string, string, unit) converter)
       \<lparr>mimeType = ''text/csv'', cost = 0, data = Some ''H0'', url = ''url''\<rparr>
     = Inr [\<lparr>mimeType = ''image/png'', cost = 2, data = ''Hb''\<rparr>]"
proof -
  let ?d = "\<lparr>mimeType = ''text/csv'', cost = 0::int, data = Some ''H0'', url = ''url''\<rparr>"
  let ?a = "offer_png ''text/csv'' 3 ''Ha'' :: (string, int, string option, string, string, unit) converter"
  let ?b = "offer_png ''text/csv'' 2 ''Hb'' :: (string, int, string option, string, string, unit) converter"
  have a: "?a ?d = Inr [\<lparr>mimeType = ''image/png'', cost = 3, data = ''Ha''\<rparr>]"
    and b: "?b ?d = Inr [\<lparr>mimeType = ''image/png'', cost = 2, data = ''Hb''\<rparr>]"
    by (simp_all add: offer_png_def)
  have all: "map (\<lambda>c. c ?d) [?a, ?b]
     = map Inr [[\<lparr>mimeType = ''image/png'', cost = 3, data = ''Ha''\<rparr>],
                [\<lparr>mimeType = ''image/png'', cost = 2, data = ''Hb''\<rparr>]]"
    using a b by simp
  from combine_is_concatenation[of ?d "[?a, ?b]"
      "[[\<lparr>mimeType = ''image/png'', cost = 3, data = ''Ha''\<rparr>],
        [\<lparr>mimeType = ''image/png'', cost = 2, data = ''Hb''\<rparr>]]" ?a _ ?b _] all a b
  show ?thesis by simp
qed

text \<open>
  C6. One iteration, with \<open>popped\<close> the last entry of the worklist. When the
  processed map holds the mimetype of \<open>popped\<close> at a cost less than or equal to its
  cost, the iteration drops \<open>popped\<close> and leaves the heap as it is, whatever the
  converter is: the converter is not called. Otherwise the heap after the iteration,
  whether the converter returned or threw, maps the mimetype of \<open>popped\<close> to the
  cost and handle of \<open>popped\<close>. So an entry whose cost equals the stored one is
  dropped and the entry stored first stays.
\<close>

theorem iteration_policy:
  fixes heap :: "('m, 'c::linorder, 'h) heap" and cached :: "'d \<Rightarrow> 'h"
    and converter :: "('m, 'c, 'h, 'd, 'u, 'e) converter"
  assumes ne: "toProcess \<noteq> []" and p: "processed < length heap"
    and popped: "popped = last toProcess"
  shows "((\<exists>c h. Map_get (heap ! processed) (mimeType popped) = Some (c, h) \<and> c \<le> cost popped) \<longrightarrow>
            (\<forall>converter' :: ('m, 'c, 'h, 'd, 'u, 'e) converter.
               loop_body cached u converter' processed toProcess heap
                 = Returns (butlast toProcess) heap))
       \<and> (\<not> (\<exists>c h. Map_get (heap ! processed) (mimeType popped) = Some (c, h) \<and> c \<le> cost popped) \<longrightarrow>
            (\<exists>heap1.
               Map_get (heap1 ! processed) (mimeType popped) = Some (cost popped, data popped) \<and>
               (case converter \<lparr>mimeType = mimeType popped, cost = cost popped,
                                 data = data popped, url = u\<rparr> of
                  Inl err \<Rightarrow> loop_body cached u converter processed toProcess heap = Throws err heap1
                | Inr candidates \<Rightarrow>
                    loop_body cached u converter processed toProcess heap =
                      Returns (butlast toProcess @
                                 map (\<lambda>c. \<lparr>mimeType = mimeType c, cost = cost c,
                                            data = cached (data c)\<rparr>) candidates) heap1)))
       \<and> (\<forall>h. Map_get (heap ! processed) (mimeType popped) = Some (cost popped, h) \<longrightarrow>
            loop_body cached u converter processed toProcess heap = Returns (butlast toProcess) heap)"
proof -
  from ne popped have tp: "toProcess = butlast toProcess @ [popped]" by simp
  have iff: "already_cheaper (heap ! processed) popped \<longleftrightarrow>
      (\<exists>c h. Map_get (heap ! processed) (mimeType popped) = Some (c, h) \<and> c \<le> cost popped)"
    by (simp add: already_cheaper_iff Map_get_def)
  have skip: "loop_body cached u conv' processed toProcess heap = Returns (butlast toProcess) heap"
    if "already_cheaper (heap ! processed) popped" for conv' :: "('m, 'c, 'h, 'd, 'u, 'e) converter"
    using loop_body_skip[OF that, of cached u conv' "butlast toProcess"] tp by simp
  let ?heap1 = "heap[processed := AList.update (mimeType popped) (cost popped, data popped) (heap ! processed)]"
  have visit: "\<exists>heap1.
               Map_get (heap1 ! processed) (mimeType popped) = Some (cost popped, data popped) \<and>
               (case converter \<lparr>mimeType = mimeType popped, cost = cost popped,
                                 data = data popped, url = u\<rparr> of
                  Inl err \<Rightarrow> loop_body cached u converter processed toProcess heap = Throws err heap1
                | Inr candidates \<Rightarrow>
                    loop_body cached u converter processed toProcess heap =
                      Returns (butlast toProcess @
                                 map (\<lambda>c. \<lparr>mimeType = mimeType c, cost = cost c,
                                            data = cached (data c)\<rparr>) candidates) heap1)"
    if nch: "\<not> already_cheaper (heap ! processed) popped"
  proof (intro exI[of _ ?heap1] conjI)
    show "Map_get (?heap1 ! processed) (mimeType popped) = Some (cost popped, data popped)"
      using p by (simp add: Map_get_def update_conv')
  next
    have "loop_body cached u converter processed (butlast toProcess @ [popped]) heap =
       (case converter \<lparr>mimeType = mimeType popped, cost = cost popped, data = data popped, url = u\<rparr> of
          Inl err \<Rightarrow> Throws err ?heap1
        | Inr cands \<Rightarrow>
            Returns (butlast toProcess @ map (\<lambda>c. \<lparr>mimeType = mimeType c, cost = cost c, data = cached (data c)\<rparr>) cands)
              ?heap1)"
      by (rule loop_body_visit[OF nch])
    with tp show "case converter \<lparr>mimeType = mimeType popped, cost = cost popped,
                                 data = data popped, url = u\<rparr> of
                  Inl err \<Rightarrow> loop_body cached u converter processed toProcess heap = Throws err ?heap1
                | Inr candidates \<Rightarrow>
                    loop_body cached u converter processed toProcess heap =
                      Returns (butlast toProcess @
                                 map (\<lambda>c. \<lparr>mimeType = mimeType c, cost = cost c,
                                            data = cached (data c)\<rparr>) candidates) ?heap1"
      by (simp split: sum.splits)
  qed
  have tie: "loop_body cached u converter processed toProcess heap = Returns (butlast toProcess) heap"
    if "Map_get (heap ! processed) (mimeType popped) = Some (cost popped, h)" for h
  proof -
    from that have "already_cheaper (heap ! processed) popped"
      unfolding iff by (intro exI[of _ "cost popped"] exI[of _ h]) simp
    then show ?thesis by (rule skip)
  qed
  show ?thesis using skip visit tie unfolding iff[symmetric] by blast
qed

theorem iteration_policy_witness:
  "(\<exists>c h. Map_get ([[(''text/plain'', (0::int, Some ''H0''))]] ! 0) ''text/plain'' = Some (c, h) \<and> c \<le> 0)
   \<and> (\<forall>converter' :: (string, int, string option, string, string, unit) converter.
         loop_body Some ''url'' converter' 0
           [\<lparr>mimeType = ''text/plain'', cost = 0, data = Some ''H1''\<rparr>]
           [[(''text/plain'', (0, Some ''H0''))]]
         = Returns [] [[(''text/plain'', (0, Some ''H0''))]])
   \<and> \<not> (\<exists>c h. Map_get ([[(''text/plain'', (0::int, Some ''H0''))]] ! 0) ''text/csv'' = Some (c, h) \<and> c \<le> 1)
   \<and> (\<exists>heap1.
         Map_get (heap1 ! 0) ''text/csv'' = Some (1, Some ''Hx'') \<and>
         loop_body Some ''url''
           (loop_converter ''Hx'' ''Hy'' :: (string, int, string option, string, string, unit) converter) 0
           [\<lparr>mimeType = ''text/csv'', cost = 1, data = Some ''Hx''\<rparr>]
           [[(''text/plain'', (0, Some ''H0''))]]
         = Returns [\<lparr>mimeType = ''text/plain'', cost = 5, data = Some ''Hy''\<rparr>] heap1)"
proof -
  let ?heap = "[[(''text/plain'', (0::int, Some ''H0''))]]"
  let ?tie = "\<lparr>mimeType = ''text/plain'', cost = 0::int, data = Some ''H1''\<rparr>"
  let ?new = "\<lparr>mimeType = ''text/csv'', cost = 1::int, data = Some ''Hx''\<rparr>"
  let ?conv = "loop_converter ''Hx'' ''Hy'' :: (string, int, string option, string, string, unit) converter"
  have p: "0 < length ?heap" by simp
  have ne1: "[?tie] \<noteq> []" and pop1: "?tie = last [?tie]" by simp_all
  have ne2: "[?new] \<noteq> []" and pop2: "?new = last [?new]" by simp_all
  note A = iteration_policy[OF ne1 p pop1, where cached = Some and u = "''url''"
      and converter = ?conv]
  note B = iteration_policy[OF ne2 p pop2, where cached = Some and u = "''url''"
      and converter = ?conv]
  have dom: "\<exists>c h. Map_get (?heap ! 0) (mimeType ?tie) = Some (c, h) \<and> c \<le> cost ?tie"
    by (simp add: Map_get_def)
  have ndom: "\<not> (\<exists>c h. Map_get (?heap ! 0) (mimeType ?new) = Some (c, h) \<and> c \<le> cost ?new)"
    by (simp add: Map_get_def)
  from A dom have skip: "\<forall>converter' :: (string, int, string option, string, string, unit) converter.
      loop_body Some ''url'' converter' 0 [?tie] ?heap = Returns (butlast [?tie]) ?heap"
    by blast
  from B ndom have "\<exists>heap1.
      Map_get (heap1 ! 0) (mimeType ?new) = Some (cost ?new, data ?new) \<and>
      (case ?conv \<lparr>mimeType = mimeType ?new, cost = cost ?new, data = data ?new, url = ''url''\<rparr> of
         Inl err \<Rightarrow> loop_body Some ''url'' ?conv 0 [?new] ?heap = Throws err heap1
       | Inr candidates \<Rightarrow>
           loop_body Some ''url'' ?conv 0 [?new] ?heap =
             Returns (butlast [?new] @
                        map (\<lambda>c. \<lparr>mimeType = mimeType c, cost = cost c,
                                   data = Some (data c)\<rparr>) candidates) heap1)"
    by blast
  then have visit: "\<exists>heap1.
         Map_get (heap1 ! 0) ''text/csv'' = Some (1, Some ''Hx'') \<and>
         loop_body Some ''url'' ?conv 0 [?new] ?heap
         = Returns [\<lparr>mimeType = ''text/plain'', cost = 5, data = Some ''Hy''\<rparr>] heap1"
    by (simp add: loop_converter_def)
  from dom skip ndom visit show ?thesis by simp
qed

text \<open>
  C7. Handles of the result are cached. When the call returns, every entry of the
  returned dataset is an entry of the seed, whose handle is a \<open>CachedObservable\<close> by
  the type of the seed, or it is a candidate that the converter returned with its
  handle wrapped by \<open>CachedObservable.from\<close> (the parameter \<open>cached\<close>): no handle
  of a candidate reaches the result unwrapped.
\<close>

theorem result_handles_cached:
  fixes heap :: "('m, 'c::ord, 'h) heap" and cached :: "'d \<Rightarrow> 'h"
  assumes run: "applyConverterDataset cached u dataset converter heap = Some (Returns result heap')"
    and E: "(m, c, h) \<in> set (heap' ! result)"
  shows "(m, c, h) \<in> set (heap ! dataset) \<or>
         (\<exists>arg candidates C.
            url arg = u \<and> converter arg = Inr candidates \<and> C \<in> set candidates \<and>
            m = mimeType C \<and> c = cost C \<and> h = cached (data C))"
proof -
  let ?seed = "heap ! dataset"
  let ?tp = "map (\<lambda>(m, c, d). \<lparr>mimeType = m, cost = c, data = d\<rparr>) ?seed"
  let ?ok = "\<lambda>m c h. (m, c, h) \<in> set ?seed \<or>
         (\<exists>arg candidates C.
            url arg = u \<and> converter arg = Inr candidates \<and> C \<in> set candidates \<and>
            m = mimeType C \<and> c = cost C \<and> h = cached (data C))"
  let ?J = "\<lambda>(tp::('m, 'c, 'h) entry list) pr.
      distinct (map fst pr) \<and>
      (\<forall>e \<in> set tp. ?ok (mimeType e) (cost e) (data e)) \<and>
      (\<forall>m c h. map_of pr m = Some (c, h) \<longrightarrow> ?ok m c h)"
  from run have res: "result = length heap"
    and loop: "while_loop cached u converter (length heap) ?tp (heap @ [[]]) = Some (Returns () heap')"
    by (simp_all add: applyConverterDataset_Returns)
  have "?J [] (heap' ! length heap)"
  proof (rule while_loop_processed[where J = ?J, OF loop])
    show "length heap < length (heap @ [[]])" by simp
  next
    show "?J ?tp ((heap @ [[]]) ! length heap)" by auto
  next
    fix rest and e :: "('m, 'c, 'h) entry" and pr
    assume "?J (rest @ [e]) pr"
    then show "?J rest pr" by simp
  next
    fix rest and e :: "('m, 'c, 'h) entry" and pr and cands :: "('m, 'c, 'd) entry list"
    let ?new = "map (\<lambda>c. \<lparr>mimeType = mimeType c, cost = cost c, data = cached (data c)\<rparr>) cands"
    let ?pr = "AList.update (mimeType e) (cost e, data e) pr"
    assume J: "?J (rest @ [e]) pr"
      and conv: "converter \<lparr>mimeType = mimeType e, cost = cost e, data = data e, url = u\<rparr> = Inr cands"
    have new: "?ok (mimeType e') (cost e') (data e')" if "e' \<in> set ?new" for e'
    proof -
      from that obtain C where "C \<in> set cands" "e' = \<lparr>mimeType = mimeType C, cost = cost C, data = cached (data C)\<rparr>"
        by auto
      with conv have "\<exists>arg candidates C.
            url arg = u \<and> converter arg = Inr candidates \<and> C \<in> set candidates \<and>
            mimeType e' = mimeType C \<and> cost e' = cost C \<and> data e' = cached (data C)"
        by (intro exI[of _ "\<lparr>mimeType = mimeType e, cost = cost e, data = data e, url = u\<rparr>"]
            exI[of _ cands] exI[of _ C]) simp
      then show ?thesis by blast
    qed
    show "?J (rest @ ?new) ?pr"
    proof (intro conjI ballI allI impI)
      show "distinct (map fst ?pr)" using J by (simp add: distinct_update)
    next
      fix e' assume "e' \<in> set (rest @ ?new)"
      then have "e' \<in> set rest \<or> e' \<in> set ?new" by simp
      then show "?ok (mimeType e') (cost e') (data e')"
      proof
        assume "e' \<in> set rest" with J show ?thesis by simp
      next
        assume "e' \<in> set ?new" then show ?thesis by (rule new)
      qed
    next
      fix m c h assume look: "map_of ?pr m = Some (c, h)"
      show "?ok m c h"
      proof (cases "m = mimeType e")
        case True
        with look have "c = cost e" "h = data e" by (simp_all add: update_conv')
        with True J show ?thesis by simp
      next
        case False
        with look have "map_of pr m = Some (c, h)" by (simp add: update_conv')
        with J show ?thesis by blast
      qed
    qed
  qed
  then have "distinct (map fst (heap' ! result))"
    and "\<forall>m c h. map_of (heap' ! result) m = Some (c, h) \<longrightarrow> ?ok m c h"
    by (simp_all add: res)
  with E show ?thesis by simp
qed

theorem result_handles_cached_witness:
  "applyConverterDataset Some ''url'' 0
       (loop_converter ''Hx'' ''Hy'' :: (string, int, string option, string, string, unit) converter)
       [[(''text/plain'', (0, Some ''H0''))]]
     = Some (Returns 1 [[(''text/plain'', (0, Some ''H0''))],
                        [(''text/plain'', (0, Some ''H0'')), (''text/csv'', (1, Some ''Hx''))]])
   \<and> (''text/csv'', 1, Some ''Hx'')
        \<in> set ([[(''text/plain'', (0, Some ''H0''))],
                 [(''text/plain'', (0::int, Some ''H0'')), (''text/csv'', (1, Some ''Hx''))]] ! 1)
   \<and> ((''text/csv'', 1, Some ''Hx'') \<in> set ([[(''text/plain'', (0::int, Some ''H0''))]] ! 0) \<or>
       (\<exists>arg candidates C.
          url arg = ''url'' \<and>
          (loop_converter ''Hx'' ''Hy'' :: (string, int, string option, string, string, unit) converter) arg
             = Inr candidates \<and>
          C \<in> set candidates \<and>
          ''text/csv'' = mimeType C \<and> 1 = cost C \<and> Some ''Hx'' = Some (data C)))"
proof -
  note run = loop_scenario_concrete
  have E: "(''text/csv'', 1, Some ''Hx'')
        \<in> set ([[(''text/plain'', (0, Some ''H0''))],
                 [(''text/plain'', (0::int, Some ''H0'')), (''text/csv'', (1, Some ''Hx''))]] ! 1)"
    by simp
  show ?thesis by (rule conjI[OF run conjI[OF E result_handles_cached[OF run E]]])
qed

text \<open>
  C8. Failures of the converter. When the converter is called during the run on an
  argument on which it throws \<open>err\<close>, the call throws \<open>err\<close>: its outcome is
  \<open>Throws\<close>, which carries no reference to a dataset. When the converter never
  throws, the call does not throw.
\<close>

theorem converter_failure_propagates:
  fixes heap :: "('m, 'c::ord, 'h) heap" and cached :: "'d \<Rightarrow> 'h"
    and converter :: "('m, 'c, 'h, 'd, 'u, 'e) converter"
  shows "(converter_called cached u dataset converter heap arg \<and> converter arg = Inl err \<longrightarrow>
            (\<exists>heap'. applyConverterDataset cached u dataset converter heap = Some (Throws err heap')))
       \<and> ((\<forall>arg' err'. converter arg' \<noteq> Inl err') \<longrightarrow>
            (\<forall>err' heap'. applyConverterDataset cached u dataset converter heap
                             \<noteq> Some (Throws err' heap')))"
proof (intro conjI impI allI)
  assume a: "converter_called cached u dataset converter heap arg \<and> converter arg = Inl err"
  let ?tp0 = "map (\<lambda>(m, c, d). \<lparr>mimeType = m, cost = c, data = d\<rparr>) (heap ! dataset)"
  from a obtain n tp h where
    it: "after_iterations cached u converter (length heap) n ?tp0 (heap @ [[]]) = Some (tp, h)"
    and ne: "tp \<noteq> []"
    and nch: "\<not> already_cheaper (h ! length heap) (last tp)"
    and arg: "arg = \<lparr>mimeType = mimeType (last tp), cost = cost (last tp),
                     data = data (last tp), url = u\<rparr>"
    unfolding converter_called_def new_Map_def by auto
  from ne have tp: "tp = butlast tp @ [last tp]" by simp
  from a arg have "loop_body cached u converter (length heap) (butlast tp @ [last tp]) h =
      Throws err (h[length heap := AList.update (mimeType (last tp)) (cost (last tp), data (last tp)) (h ! length heap)])"
    by (simp add: loop_body_visit[OF nch])
  with tp have body: "loop_body cached u converter (length heap) tp h =
      Throws err (h[length heap := AList.update (mimeType (last tp)) (cost (last tp), data (last tp)) (h ! length heap)])"
    by simp
  have "while_loop cached u converter (length heap) ?tp0 (heap @ [[]]) =
        while_loop cached u converter (length heap) tp h"
    by (rule while_loop_after_iterations[OF it])
  also have "\<dots> = Some (Throws err (h[length heap := AList.update (mimeType (last tp)) (cost (last tp), data (last tp)) (h ! length heap)]))"
    using ne body by (subst while_loop.simps) simp
  finally show "\<exists>heap'. applyConverterDataset cached u dataset converter heap = Some (Throws err heap')"
    by (simp add: applyConverterDataset_Throws)
next
  fix err' heap'
  assume total: "\<forall>arg' err'. converter arg' \<noteq> Inl err'"
  show "applyConverterDataset cached u dataset converter heap \<noteq> Some (Throws err' heap')"
  proof
    assume "applyConverterDataset cached u dataset converter heap = Some (Throws err' heap')"
    then have "\<exists>arg. converter arg = Inl err'"
      unfolding applyConverterDataset_Throws by (rule while_loop_Throws)
    with total show False by blast
  qed
qed

theorem converter_failure_propagates_witness:
  "converter_called Some ''url'' 0 failing_converter [[(''text/plain'', (0, Some ''H0''))]]
      \<lparr>mimeType = ''text/csv'', cost = 1, data = Some ''Hx'', url = ''url''\<rparr>
   \<and> failing_converter \<lparr>mimeType = ''text/csv'', cost = 1, data = Some ''Hx'', url = ''url''\<rparr>
       = Inl ''unsupported''
   \<and> (\<exists>heap'. applyConverterDataset Some ''url'' 0 failing_converter
                  [[(''text/plain'', (0, Some ''H0''))]] = Some (Throws ''unsupported'' heap'))
   \<and> (\<forall>arg' err'.
         (loop_converter ''Hx'' ''Hy'' :: (string, int, string option, string, string, unit) converter) arg'
           \<noteq> Inl err')
   \<and> (\<forall>err' heap'.
         applyConverterDataset Some ''url'' 0
           (loop_converter ''Hx'' ''Hy'' :: (string, int, string option, string, string, unit) converter)
           [[(''text/plain'', (0, Some ''H0''))]] \<noteq> Some (Throws err' heap'))"
proof -
  let ?heap = "[[(''text/plain'', (0::int, Some ''H0''))]]"
  let ?arg = "\<lparr>mimeType = ''text/csv'', cost = 1::int, data = Some ''Hx'', url = ''url''\<rparr>"
  let ?conv = "loop_converter ''Hx'' ''Hy'' :: (string, int, string option, string, string, unit) converter"
  have "after_iterations Some ''url'' failing_converter (fst (new_Map ?heap)) (Suc 0)
          (map (\<lambda>(m, c, d). \<lparr>mimeType = m, cost = c, data = d\<rparr>) (?heap ! 0)) (snd (new_Map ?heap))
        = Some ([\<lparr>mimeType = ''text/csv'', cost = 1, data = Some ''Hx''\<rparr>],
                [[(''text/plain'', (0, Some ''H0''))], [(''text/plain'', (0, Some ''H0''))]])"
    by (simp add: new_Map_def loop_body_def already_cheaper_def Map_has_def Map_get_def
        Map_set_def failing_converter_def Let_def)
  then have called: "converter_called Some ''url'' 0 failing_converter ?heap ?arg"
    unfolding converter_called_def
    by (intro exI[of _ "Suc 0"] exI[of _ "[\<lparr>mimeType = ''text/csv'', cost = 1, data = Some ''Hx''\<rparr>]"]
        exI[of _ "[[(''text/plain'', (0, Some ''H0''))], [(''text/plain'', (0, Some ''H0''))]]"])
      (simp add: new_Map_def already_cheaper_def Map_has_def)
  have fails: "failing_converter ?arg = Inl ''unsupported''"
    by (simp add: failing_converter_def)
  have total: "\<forall>arg' err'. ?conv arg' \<noteq> Inl err'"
    by (simp add: loop_converter_def)
  from converter_failure_propagates[of Some "''url''" 0 failing_converter ?heap ?arg "''unsupported''"]
    called fails
  have thrown: "\<exists>heap'. applyConverterDataset Some ''url'' 0 failing_converter ?heap
                  = Some (Throws ''unsupported'' heap')"
    by blast
  from converter_failure_propagates[of Some "''url''" 0 ?conv ?heap] total
  have quiet: "\<forall>err' heap'. applyConverterDataset Some ''url'' 0 ?conv ?heap \<noteq> Some (Throws err' heap')"
    by blast
  from called fails thrown total quiet show ?thesis by (intro conjI)
qed

text \<open>
  C9. The seed is not mutated. For a seed that is an object of the heap, a call that
  returns gives a reference that the heap did not have before, so not the seed's, and
  every object the heap had, the seed among them, is left as it was. A call that
  throws leaves them as they were too.
\<close>

theorem seed_not_mutated:
  fixes heap :: "('m, 'c::ord, 'h) heap" and cached :: "'d \<Rightarrow> 'h"
  assumes valid: "dataset < length heap"
    and run: "applyConverterDataset cached u dataset converter heap = Some r"
  shows "case r of
           Returns result heap' \<Rightarrow>
             result = length heap \<and> result \<noteq> dataset \<and> length heap' = Suc (length heap) \<and>
             (\<forall>a < length heap. heap' ! a = heap ! a) \<and> heap' ! dataset = heap ! dataset
         | Throws err heap' \<Rightarrow>
             (\<forall>a < length heap. heap' ! a = heap ! a) \<and> heap' ! dataset = heap ! dataset"
proof -
  let ?tp0 = "map (\<lambda>(m, c, d). \<lparr>mimeType = m, cost = c, data = d\<rparr>) (heap ! dataset)"
  have keep: "length h' = Suc (length heap) \<and> (\<forall>a < length heap. h' ! a = heap ! a)"
    if "frame (length heap) (heap @ [[]]) h'" for h' :: "('m, 'c, 'h) heap"
    using that by (auto simp: frame_def nth_append)
  show ?thesis
  proof (cases r)
    case (Throws err h')
    with run have "while_loop cached u converter (length heap) ?tp0 (heap @ [[]]) = Some (Throws err h')"
      by (simp add: applyConverterDataset_Throws)
    from while_loop_frame[OF this] have "frame (length heap) (heap @ [[]]) h'" by simp
    from keep[OF this] valid Throws show ?thesis by simp
  next
    case (Returns result h')
    with run have res: "result = length heap"
      and "while_loop cached u converter (length heap) ?tp0 (heap @ [[]]) = Some (Returns () h')"
      by (simp_all add: applyConverterDataset_Returns)
    from while_loop_frame[OF this(2)] have "frame (length heap) (heap @ [[]]) h'" by simp
    from keep[OF this] valid Returns res show ?thesis by simp
  qed
qed

theorem seed_not_mutated_witness:
  "0 < length [[(''text/plain'', (0::int, Some ''H0''))]]
   \<and> applyConverterDataset Some ''url'' 0
       (loop_converter ''Hx'' ''Hy'' :: (string, int, string option, string, string, unit) converter)
       [[(''text/plain'', (0, Some ''H0''))]]
     = Some (Returns 1 [[(''text/plain'', (0, Some ''H0''))],
                        [(''text/plain'', (0, Some ''H0'')), (''text/csv'', (1, Some ''Hx''))]])
   \<and> [[(''text/plain'', (0, Some ''H0''))],
        [(''text/plain'', (0::int, Some ''H0'')), (''text/csv'', (1, Some ''Hx''))]] ! 0
     = [[(''text/plain'', (0, Some ''H0''))]] ! 0
   \<and> 1 = length [[(''text/plain'', (0::int, Some ''H0''))]]"
proof -
  have valid: "0 < length [[(''text/plain'', (0::int, Some ''H0''))]]" by simp
  note run = loop_scenario_concrete
  from seed_not_mutated[OF valid run] valid run show ?thesis by simp
qed

text \<open>
  C10. No converters. \<open>combineManyConverters\<close> of no steps returns the empty list
  of candidates on every entry. As the step of the call, on a seed whose keys are
  distinct (as the keys of a \<open>Map\<close> are), the call returns and the returned dataset
  maps every mimetype to the cost the seed maps it to.
\<close>

theorem no_converters_keep_seed:
  fixes heap :: "('m, 'c::ord, 'h) heap" and cached :: "'d \<Rightarrow> 'h"
  shows "(\<forall>arg :: ('m, 'c, 'h, 'u) converter_arg.
            (combineManyConverters [] :: ('m, 'c, 'h, 'd, 'u, 'e) converter) arg = Inr [])
       \<and> (distinct (map fst (heap ! dataset)) \<longrightarrow>
            (\<exists>heap'.
               applyConverterDataset cached u dataset
                 (combineManyConverters [] :: ('m, 'c, 'h, 'd, 'u, 'e) converter) heap
                 = Some (Returns (length heap) heap') \<and>
               (\<forall>m. map_option fst (Map_get (heap' ! length heap) m)
                      = map_option fst (Map_get (heap ! dataset) m))))"
proof (intro conjI allI impI)
  fix arg :: "('m, 'c, 'h, 'u) converter_arg"
  show "(combineManyConverters [] :: ('m, 'c, 'h, 'd, 'u, 'e) converter) arg = Inr []"
    by (simp add: combine_no_converters)
next
  assume d: "distinct (map fst (heap ! dataset))"
  have "applyConverterDataset cached u dataset
          (combineManyConverters [] :: ('m, 'c, 'h, 'd, 'u, 'e) converter) heap
        = Some (Returns (length heap) (heap @ [rev (heap ! dataset)]))"
    by (rule no_converters_run[OF d]) (simp add: combine_no_converters)
  moreover have "map_option fst (Map_get ((heap @ [rev (heap ! dataset)]) ! length heap) m)
                  = map_option fst (Map_get (heap ! dataset) m)" for m
    by (simp add: Map_get_def map_of_rev_distinct[OF d])
  ultimately show "\<exists>heap'.
               applyConverterDataset cached u dataset
                 (combineManyConverters [] :: ('m, 'c, 'h, 'd, 'u, 'e) converter) heap
                 = Some (Returns (length heap) heap') \<and>
               (\<forall>m. map_option fst (Map_get (heap' ! length heap) m)
                      = map_option fst (Map_get (heap ! dataset) m))"
    by blast
qed

theorem no_converters_keep_seed_witness:
  "distinct (map fst ([[(''text/plain'', (0::int, Some ''H0'')), (''text/csv'', (1, Some ''Hx''))]] ! 0))
   \<and> (\<exists>heap'.
         applyConverterDataset Some ''url'' 0
           (combineManyConverters [] :: (string, int, string option, string, string, unit) converter)
           [[(''text/plain'', (0, Some ''H0'')), (''text/csv'', (1, Some ''Hx''))]]
           = Some (Returns (length [[(''text/plain'', (0::int, Some ''H0'')), (''text/csv'', (1, Some ''Hx''))]])
                     heap') \<and>
         (\<forall>m. map_option fst
                 (Map_get (heap' ! length [[(''text/plain'', (0::int, Some ''H0'')),
                                            (''text/csv'', (1, Some ''Hx''))]]) m)
               = map_option fst
                   (Map_get ([[(''text/plain'', (0::int, Some ''H0'')), (''text/csv'', (1, Some ''Hx''))]] ! 0)
                      m)))
   \<and> (combineManyConverters [] :: (string, int, string option, string, string, unit) converter)
        \<lparr>mimeType = ''text/plain'', cost = 0, data = Some ''H0'', url = ''url''\<rparr> = Inr []"
proof -
  let ?heap = "[[(''text/plain'', (0::int, Some ''H0'')), (''text/csv'', (1, Some ''Hx''))]]"
  have d: "distinct (map fst (?heap ! 0))" by simp
  note T = no_converters_keep_seed[where heap = ?heap and dataset = 0 and cached = Some
      and u = "''url''" and ?'e = unit and ?'d = string]
  from T d show ?thesis by blast
qed

end
